theory Spec2Isabelle
  imports Complex_Main "HOL-Library.AList" "HOL-Library.Multiset"
begin

section \<open>Python string primitives used by the two modules\<close>

text \<open>
  A Python \<open>str\<close> is a sequence of code points; \<open>len\<close>, slicing and \<open>strip\<close> count
  code points. The model reads a \<^typ>\<open>char\<close> as the code point of the same number, so
  it covers the code points 0 to 255; the classifications below are Python's for that
  range.
\<close>

definition isspace :: "char \<Rightarrow> bool" where
  \<comment> \<open>\<open>str.isspace\<close> on one code point: what \<open>str.strip()\<close> removes\<close>
  "isspace c = ((of_char c :: nat) \<in> {9, 10, 11, 12, 13, 28, 29, 30, 31, 32, 133, 160})"

definition isdecimal :: "char \<Rightarrow> bool" where
  \<comment> \<open>the decimal digits \<open>0\<close> to \<open>9\<close>, the only ones \<open>int\<close> and \<open>float\<close> read\<close>
  "isdecimal c = (48 \<le> (of_char c :: nat) \<and> (of_char c :: nat) \<le> 57)"

definition isdigit_char :: "char \<Rightarrow> bool" where
  \<comment> \<open>\<open>str.isdigit\<close> on one code point: the decimal digits and the superscripts 2, 3, 1\<close>
  "isdigit_char c = (isdecimal c \<or> (of_char c :: nat) \<in> {178, 179, 185})"

definition isdigit :: "string \<Rightarrow> bool" where
  \<comment> \<open>\<open>p.isdigit()\<close>: at least one character, and every character a digit\<close>
  "isdigit p = (p \<noteq> [] \<and> list_all isdigit_char p)"

definition strip :: "string \<Rightarrow> string" where
  "strip s = rev (dropWhile isspace (rev (dropWhile isspace s)))"

definition startswith :: "string \<Rightarrow> string \<Rightarrow> bool" where
  "startswith s p = (take (length p) s = p)"

fun split :: "char \<Rightarrow> string \<Rightarrow> string list" where
  \<comment> \<open>\<open>s.split(sep)\<close> for a separator of one character\<close>
  "split sep [] = [[]]"
| "split sep (c # cs) =
     (if c = sep then [] # split sep cs
      else (case split sep cs of [] \<Rightarrow> [[c]] | w # ws \<Rightarrow> (c # w) # ws))"

definition lower_char :: "char \<Rightarrow> char" where
  \<comment> \<open>\<open>str.lower\<close> on one code point below 256\<close>
  "lower_char c =
     (let n = (of_char c :: nat)
      in if (65 \<le> n \<and> n \<le> 90) \<or> (192 \<le> n \<and> n \<le> 222 \<and> n \<noteq> 215)
         then char_of (n + 32) else c)"

definition lower :: "string \<Rightarrow> string" where
  "lower s = map lower_char s"

fun contains :: "string \<Rightarrow> string \<Rightarrow> bool" where
  \<comment> \<open>\<open>pattern in s\<close> on strings: \<open>pattern\<close> occurs as a contiguous substring\<close>
  "contains pattern [] = (pattern = [])"
| "contains pattern (c # cs) = (startswith (c # cs) pattern \<or> contains pattern cs)"

subsection \<open>What \<open>int(s)\<close> and \<open>float(s)\<close> accept\<close>

text \<open>
  Both constructors strip white space at the two ends, read an optional sign and then
  groups of decimal digits in which one underscore may stand between two digits. They
  raise \<open>ValueError\<close> on anything else; here that is \<open>None\<close>. \<open>int\<close> also raises
  \<open>ValueError\<close> when the literal has more digits than the interpreter's limit for the
  conversion of strings to integers, 4300 unless it is configured otherwise; \<open>float\<close>
  has no such limit.
\<close>

definition number_space :: "char \<Rightarrow> bool" where
  \<comment> \<open>the white space \<open>int\<close> and \<open>float\<close> skip at the ends of their argument\<close>
  "number_space c = ((of_char c :: nat) \<in> {9, 10, 11, 12, 13, 32, 133, 160})"

definition strip_number :: "string \<Rightarrow> string" where
  "strip_number s = rev (dropWhile number_space (rev (dropWhile number_space s)))"

definition has_sign :: "string \<Rightarrow> bool" where
  "has_sign s = (case s of [] \<Rightarrow> False | c # _ \<Rightarrow> c = CHR ''+'' \<or> c = CHR ''-'')"

definition drop_sign :: "string \<Rightarrow> string" where
  "drop_sign s = (if has_sign s then tl s else s)"

fun digitpart :: "string \<Rightarrow> bool" where
  \<comment> \<open>\<open>digit (["_"] digit)*\<close>\<close>
  "digitpart [] = False"
| "digitpart [c] = isdecimal c"
| "digitpart (c # d # cs) =
     (isdecimal c \<and> (if d = CHR ''_'' then digitpart cs else digitpart (d # cs)))"

definition digits_value :: "string \<Rightarrow> int" where
  \<comment> \<open>the value of a digit part, its underscores skipped\<close>
  "digits_value ds =
     foldl (\<lambda>acc c. 10 * acc + (int (of_char c) - 48)) 0 (filter (\<lambda>c. c \<noteq> CHR ''_'') ds)"

definition int_max_str_digits :: nat where
  \<comment> \<open>\<open>sys.get_int_max_str_digits()\<close>: the interpreter's default, which the program
      does not change\<close>
  "int_max_str_digits = 4300"

definition digit_count :: "string \<Rightarrow> nat" where
  \<comment> \<open>the digits of a digit part; its underscores are not counted\<close>
  "digit_count b = length (filter (\<lambda>c. c \<noteq> CHR ''_'') b)"

definition py_int :: "string \<Rightarrow> int option" where
  \<comment> \<open>\<open>int(s)\<close>; \<open>None\<close> for \<open>ValueError\<close>, which is also raised for a literal of more
      than \<open>int_max_str_digits\<close> digits\<close>
  "py_int s =
     (let t = strip_number s; body = drop_sign t
      in if digitpart body \<and> digit_count body \<le> int_max_str_digits
         then Some (if has_sign t \<and> hd t = CHR ''-'' then - digits_value body
                    else digits_value body)
         else None)"

definition is_exp_char :: "char \<Rightarrow> bool" where
  "is_exp_char c = (c = CHR ''e'' \<or> c = CHR ''E'')"

definition pointnumber :: "string \<Rightarrow> bool" where
  \<comment> \<open>\<open>[digitpart] "." digitpart | digitpart ["."]\<close>\<close>
  "pointnumber m =
     (let ip = takeWhile (\<lambda>c. c \<noteq> CHR ''.'') m;
          rest = dropWhile (\<lambda>c. c \<noteq> CHR ''.'') m
      in if rest = [] then digitpart ip
         else (let fp = tl rest
               in (ip = [] \<and> digitpart fp) \<or> (digitpart ip \<and> (fp = [] \<or> digitpart fp))))"

definition floatnumber :: "string \<Rightarrow> bool" where
  \<comment> \<open>\<open>pointnumber [("e" | "E") [sign] digitpart]\<close>\<close>
  "floatnumber u =
     (let m = takeWhile (\<lambda>c. \<not> is_exp_char c) u;
          rest = dropWhile (\<lambda>c. \<not> is_exp_char c) u
      in if rest = [] then pointnumber m
         else pointnumber m \<and> digitpart (drop_sign (tl rest)))"

definition py_float :: "string \<Rightarrow> string option" where
  \<comment> \<open>\<open>float(s)\<close>: the literal read (the double nearest to it is not computed), or
      \<open>None\<close> for \<open>ValueError\<close>\<close>
  "py_float s =
     (let t = strip_number s; u = drop_sign t
      in if lower u \<in> {''inf'', ''infinity'', ''nan''} \<or> floatnumber u
         then Some t else None)"

section \<open>The analyzer: \<open>infer_type\<close>\<close>

definition url_rule :: "string \<Rightarrow> bool" where
  "url_rule v = (startswith v ''http://'' \<or> startswith v ''https://'')"

definition date_rule :: "string \<Rightarrow> bool" where
  "date_rule v =
     (CHR ''/'' \<in> set v \<and> length v = 10
      \<and> length (split CHR ''/'' v) = 3 \<and> list_all isdigit (split CHR ''/'' v))"

definition infer_type :: "string \<Rightarrow> string" where
  "infer_type value0 =
     (if value0 = [] \<or> strip value0 = [] then ''empty''
      else (let v = strip value0
            in if url_rule v then ''url''
               else if date_rule v then ''date''
               else if py_int v \<noteq> None then ''integer''
               else if py_float v \<noteq> None then ''float''
               else ''string''))"

section \<open>The storage wrapper: \<open>_infer_type\<close>\<close>

datatype py_value = PyNone | PyBool bool | PyInt int | PyFloat string | PyStr string

definition infer_type_coerce :: "string option \<Rightarrow> py_value" where
  \<comment> \<open>\<open>_infer_type\<close> of \<open>supaBaseCsvParser.py\<close>; the argument is \<open>None\<close> or a string\<close>
  "infer_type_coerce value0 =
     (case value0 of
        None \<Rightarrow> PyNone
      | Some v \<Rightarrow>
          if v = [] then PyNone
          else if lower v \<in> {''null'', ''none'', ''nil''} then PyNone
          else if lower v \<in> {''true'', ''yes'', ''1''} then PyBool True
          else if lower v \<in> {''false'', ''no'', ''0''} then PyBool False
          else (case py_int v of
                  Some n \<Rightarrow> PyInt n
                | None \<Rightarrow> (case py_float v of
                             Some f \<Rightarrow> PyFloat f
                           | None \<Rightarrow> PyStr v)))"

section \<open>The analyzer: \<open>analyze_csv\<close>\<close>

definition IGNORE_PATTERNS :: "string list" where
  "IGNORE_PATTERNS = [''Cosponsor'']"

definition should_ignore_column :: "string \<Rightarrow> bool" where
  "should_ignore_column col_name =
     list_ex (\<lambda>pattern. contains pattern col_name) IGNORE_PATTERNS"

text \<open>
  The per-column dictionary of counters. \<open>types\<close> is a \<open>defaultdict(int)\<close>: an
  association list in insertion order, since the report breaks ties by that order.
\<close>

record column_stat =
  total :: nat
  filled :: nat
  empty :: nat
  types :: "(string \<times> nat) list"
  sample_values :: "string list"

text \<open>
  One record holds the counters of the pass and, at its end, is the dictionary that
  \<open>analyze_csv\<close> returns: \<open>columns\<close> is the local \<open>stats\<close>, \<open>subject_terms\<close> the
  local \<open>subject_term_counts\<close>, and the nested dictionary \<open>cosponsor_stats\<close> is the
  two fields \<open>bills_with_cosponsors\<close> and \<open>total_cosponsors\<close> together with
  \<open>avg_per_bill\<close> below. Dictionaries are association lists in insertion order.
\<close>

record analysis =
  total_rows :: nat
  columns :: "(string \<times> column_stat) list"
  relevant_headers :: "string list"
  subject_terms :: "(string \<times> nat) list"
  bills_with_subject_terms :: nat
  bills_with_cosponsors :: nat
  total_cosponsors :: nat

definition avg_per_bill :: "analysis \<Rightarrow> rat" where
  "avg_per_bill a =
     (if bills_with_cosponsors a > 0
      then of_nat (total_cosponsors a) / of_nat (bills_with_cosponsors a) else 0)"

fun incr :: "(string \<times> nat) list \<Rightarrow> string \<Rightarrow> (string \<times> nat) list" where
  \<comment> \<open>\<open>d[k] += 1\<close> on a \<open>defaultdict(int)\<close>: a new key goes to the end\<close>
  "incr [] k = [(k, 1)]"
| "incr ((a, n) # ps) k = (if a = k then (a, n + 1) # ps else (a, n) # incr ps k)"

definition nonblank :: "string \<Rightarrow> bool" where
  \<comment> \<open>the test \<open>value and value.strip()\<close>\<close>
  "nonblank v = (v \<noteq> [] \<and> strip v \<noteq> [])"

definition indices_of :: "string \<Rightarrow> string list \<Rightarrow> nat list" where
  \<comment> \<open>\<open>[i for i, h in enumerate(all_headers) if h == name]\<close>\<close>
  "indices_of name all_headers =
     map fst (filter (\<lambda>(i, h). h = name) (enumerate 0 all_headers))"

definition relevant_step :: "string \<Rightarrow> string set \<times> string list \<Rightarrow> string set \<times> string list" where
  "relevant_step h = (\<lambda>(seen, acc).
     if h \<notin> seen \<and> h \<noteq> ''billSubjectTerm'' \<and> \<not> should_ignore_column h
     then (insert h seen, acc @ [h]) else (seen, acc))"

definition get_relevant_headers :: "string list \<Rightarrow> string list" where
  "get_relevant_headers all_headers = snd (fold relevant_step all_headers ({}, []))"

definition new_stat :: column_stat where
  "new_stat = \<lparr>total = 0, filled = 0, empty = 0, types = [], sample_values = []\<rparr>"

definition subject_step ::
  "string list \<Rightarrow> nat \<Rightarrow> string list \<times> (string \<times> nat) list \<Rightarrow> string list \<times> (string \<times> nat) list" where
  "subject_step row_values idx = (\<lambda>(row_subject_terms, counts).
     if idx < length row_values \<and> nonblank (row_values ! idx)
     then (let term = strip (row_values ! idx)
           in (row_subject_terms @ [term], incr counts term))
     else (row_subject_terms, counts))"

definition cosponsor_step :: "string list \<Rightarrow> nat \<Rightarrow> nat \<Rightarrow> nat" where
  "cosponsor_step row_values idx row_cosponsors =
     (if idx < length row_values \<and> nonblank (row_values ! idx)
      then row_cosponsors + 1 else row_cosponsors)"

definition row_dict_step ::
  "string list \<Rightarrow> string list \<Rightarrow> nat \<times> string \<Rightarrow> (string \<rightharpoonup> string) \<Rightarrow> (string \<rightharpoonup> string)" where
  "row_dict_step relevant row_values = (\<lambda>(i, h) row_dict.
     if h \<in> set relevant \<and> row_dict h = None
     then row_dict(h \<mapsto> (if i < length row_values then row_values ! i else []))
     else row_dict)"

definition make_row_dict :: "string list \<Rightarrow> string list \<Rightarrow> string list \<Rightarrow> (string \<rightharpoonup> string)" where
  "make_row_dict relevant all_headers row_values =
     fold (row_dict_step relevant row_values) (enumerate 0 all_headers) Map.empty"

definition row_get :: "(string \<rightharpoonup> string) \<Rightarrow> string \<Rightarrow> string" where
  \<comment> \<open>\<open>row_dict.get(col, "")\<close>\<close>
  "row_get row_dict col = (case row_dict col of None \<Rightarrow> [] | Some v \<Rightarrow> v)"

definition make_sample :: "string \<Rightarrow> string" where
  \<comment> \<open>\<open>value[:80] + "..." if len(value) > 80 else value\<close>\<close>
  "make_sample v = (if length v > 80 then take 80 v @ ''...'' else v)"

definition update_column :: "string \<Rightarrow> column_stat \<Rightarrow> column_stat" where
  "update_column v st =
     (let st1 = st\<lparr>total := total st + 1\<rparr>
      in if nonblank v
         then (let st2 = st1\<lparr>filled := filled st1 + 1,
                            types := incr (types st1) (infer_type v)\<rparr>
               in if length (sample_values st2) < 3
                  then (let sample = make_sample v
                        in if sample \<notin> set (sample_values st2)
                           then st2\<lparr>sample_values := sample_values st2 @ [sample]\<rparr>
                           else st2)
                  else st2)
         else st1\<lparr>empty := empty st1 + 1, types := incr (types st1) ''empty''\<rparr>)"

definition column_step ::
  "(string \<rightharpoonup> string) \<Rightarrow> string \<Rightarrow> (string \<times> column_stat) list \<Rightarrow> (string \<times> column_stat) list" where
  \<comment> \<open>the body of \<open>for col in relevant_headers\<close>, on the entry \<open>stats[col]\<close>\<close>
  "column_step row_dict col stats =
     AList.map_entry col (update_column (row_get row_dict col)) stats"

definition process_row ::
  "string list \<Rightarrow> nat list \<Rightarrow> nat list \<Rightarrow> string list \<Rightarrow> analysis \<Rightarrow> analysis" where
  \<comment> \<open>the body of \<open>for row_values in reader\<close>\<close>
  "process_row all_headers subject_term_indices cosponsor_indices row_values a =
     (let (row_subject_terms, counts) =
            fold (subject_step row_values) subject_term_indices ([], subject_terms a);
          row_cosponsors = fold (cosponsor_step row_values) cosponsor_indices 0;
          row_dict = make_row_dict (relevant_headers a) all_headers row_values
      in a\<lparr>total_rows := total_rows a + 1,
            subject_terms := counts,
            bills_with_subject_terms :=
              (if row_subject_terms \<noteq> [] then bills_with_subject_terms a + 1
               else bills_with_subject_terms a),
            bills_with_cosponsors :=
              (if row_cosponsors > 0 then bills_with_cosponsors a + 1
               else bills_with_cosponsors a),
            total_cosponsors :=
              (if row_cosponsors > 0 then total_cosponsors a + row_cosponsors
               else total_cosponsors a),
            columns := fold (column_step row_dict) (relevant_headers a) (columns a)\<rparr>)"

subsection \<open>Reading the file\<close>

text \<open>
  A file is the sequence of its lines; a line is given by the cells that \<open>csv.reader\<close>
  splits it into, or is \<open>Undecodable\<close> when reading it raises \<open>UnicodeDecodeError\<close>.
  The file system maps a path to a file, or to \<open>None\<close> when nothing is there.
  Exceptions are values of \<open>error\<close>.
\<close>

datatype error = FileNotFoundError | StopIteration | UnicodeDecodeError
  | ZeroDivisionError | ValueError

datatype file_line = Line "string list" | Undecodable

type_synonym file_system = "string \<Rightarrow> file_line list option"

fun next_line :: "file_line list \<Rightarrow> error + string list \<times> file_line list" where
  \<comment> \<open>\<open>next(f)\<close>\<close>
  "next_line [] = Inl StopIteration"
| "next_line (Undecodable # rest) = Inl UnicodeDecodeError"
| "next_line (Line cells # rest) = Inr (cells, rest)"

fun skip_lines :: "nat \<Rightarrow> file_line list \<Rightarrow> error + file_line list" where
  \<comment> \<open>\<open>for _ in range(n): next(f)\<close>\<close>
  "skip_lines 0 f = Inr f"
| "skip_lines (Suc n) f =
     (case next_line f of Inl e \<Rightarrow> Inl e | Inr (cells, rest) \<Rightarrow> skip_lines n rest)"

fun process_rows ::
  "string list \<Rightarrow> nat list \<Rightarrow> nat list \<Rightarrow> analysis \<Rightarrow> file_line list \<Rightarrow> error + analysis" where
  \<comment> \<open>\<open>for row_values in reader\<close>\<close>
  "process_rows all_headers si ci a [] = Inr a"
| "process_rows all_headers si ci a (Undecodable # rest) = Inl UnicodeDecodeError"
| "process_rows all_headers si ci a (Line row_values # rest) =
     process_rows all_headers si ci (process_row all_headers si ci row_values a) rest"

definition start_analysis :: "string list \<Rightarrow> analysis" where
  \<comment> \<open>the counters before the first data row\<close>
  "start_analysis all_headers =
     \<lparr>total_rows = 0,
      columns = map (\<lambda>col. (col, new_stat)) (get_relevant_headers all_headers),
      relevant_headers = get_relevant_headers all_headers,
      subject_terms = [],
      bills_with_subject_terms = 0,
      bills_with_cosponsors = 0,
      total_cosponsors = 0\<rparr>"

definition analyze_csv :: "file_system \<Rightarrow> string \<Rightarrow> error + analysis" where
  "analyze_csv fs filepath =
     (case fs filepath of
        None \<Rightarrow> Inl FileNotFoundError
      | Some f \<Rightarrow>
          (case skip_lines 3 f of
             Inl e \<Rightarrow> Inl e
           | Inr f1 \<Rightarrow>
               (case next_line f1 of
                  Inl e \<Rightarrow> Inl e
                | Inr (all_headers, f2) \<Rightarrow>
                    process_rows all_headers
                      (indices_of ''billSubjectTerm'' all_headers)
                      (indices_of ''Cosponsor'' all_headers)
                      (start_analysis all_headers) f2)))"

section \<open>The analyzer: \<open>print_report\<close> and \<open>main\<close>\<close>

text \<open>
  Standard output is a list of lines, one constructor for each kind of \<open>print\<close>
  statement, holding the values that the statement formats; colours and number formats
  are left out. Python computes rates and averages in floating point; the model computes
  them exactly, as rationals.
\<close>

datatype report_line =
    Rule
  | Title string
  | TotalRows nat
  | AnalyzedColumns nat
  | Heading string
  | Dashes
  | NoneLine
  | ColumnName string
  | TypeLine string
  | SampleLine string
  | FillRateMissing rat nat
  | FillRateFilledMissing rat nat nat
  | BillsWithCosponsors nat nat rat
  | TotalCosponsors nat
  | AvgCosponsors rat
  | BillsWithTerms nat nat rat
  | UniqueTerms nat
  | TopTermsHeading
  | TermBar nat nat string
  | MoreTerms nat
  | Sql string
  | SqlNotNull string string
  | SqlNullable string string rat

type_synonym entry = "string \<times> column_stat \<times> rat"

text \<open>What a run of print statements leaves: the lines printed, and the exception if one was raised.\<close>

type_synonym printed = "report_line list \<times> error option"

definition then_print :: "printed \<Rightarrow> printed \<Rightarrow> printed" where
  \<comment> \<open>sequencing: the second run happens only if the first raised nothing\<close>
  "then_print p q =
     (case p of
        (ls, Some e) \<Rightarrow> (ls, Some e)
      | (ls, None) \<Rightarrow> (case q of (ls', r) \<Rightarrow> (ls @ ls', r)))"

fun print_entries :: "(entry \<Rightarrow> error + report_line list) \<Rightarrow> entry list \<Rightarrow> printed" where
  \<comment> \<open>a \<open>for\<close> loop over a bucket whose body prints the lines of one entry or raises\<close>
  "print_entries body [] = ([], None)"
| "print_entries body (e # es) =
     (case body e of
        Inl err \<Rightarrow> ([], Some err)
      | Inr ls \<Rightarrow> then_print (ls, None) (print_entries body es))"

definition fill_rate :: "column_stat \<Rightarrow> rat" where
  \<comment> \<open>\<open>(stats["filled"] / stats["total"]) * 100 if stats["total"] > 0 else 0\<close>\<close>
  "fill_rate st =
     (if total st > 0 then (of_nat (filled st) / of_nat (total st)) * 100 else 0)"

record buckets =
  always_filled :: "entry list"
  mostly_filled :: "entry list"
  sometimes_filled :: "entry list"
  rarely_filled :: "entry list"

definition bucket_step :: "string \<times> column_stat \<Rightarrow> buckets \<Rightarrow> buckets" where
  "bucket_step = (\<lambda>(col, st) b.
     (let r = fill_rate st
      in if r = 100 then b\<lparr>always_filled := always_filled b @ [(col, st, r)]\<rparr>
         else if r \<ge> 90 then b\<lparr>mostly_filled := mostly_filled b @ [(col, st, r)]\<rparr>
         else if r \<ge> 50 then b\<lparr>sometimes_filled := sometimes_filled b @ [(col, st, r)]\<rparr>
         else b\<lparr>rarely_filled := rarely_filled b @ [(col, st, r)]\<rparr>))"

definition bucket_columns :: "(string \<times> column_stat) list \<Rightarrow> buckets" where
  \<comment> \<open>\<open>for col, stats in columns.items()\<close>\<close>
  "bucket_columns cols =
     fold bucket_step cols
       \<lparr>always_filled = [], mostly_filled = [], sometimes_filled = [], rarely_filled = []\<rparr>"

fun max_by :: "('a \<Rightarrow> nat) \<Rightarrow> 'a list \<Rightarrow> 'a option" where
  \<comment> \<open>\<open>max(xs, key=f)\<close>: the first element with the greatest key; \<open>None\<close> for the
      \<open>ValueError\<close> on an empty sequence\<close>
  "max_by f [] = None"
| "max_by f (x # xs) = Some (fold (\<lambda>y best. if f y > f best then y else best) xs x)"

definition primary_type_all :: "(string \<times> nat) list \<Rightarrow> error + string" where
  \<comment> \<open>\<open>max(stats["types"].items(), key=lambda x: x[1] if x[0] != "empty" else 0)[0]\<close>\<close>
  "primary_type_all ts =
     (case max_by (\<lambda>(k, n). if k \<noteq> ''empty'' then n else 0) ts of
        None \<Rightarrow> Inl ValueError
      | Some (k, n) \<Rightarrow> Inr k)"

definition primary_type_non_empty :: "string \<Rightarrow> (string \<times> nat) list \<Rightarrow> string" where
  \<comment> \<open>the greatest of \<open>non_empty_types\<close>, or the default when there is none\<close>
  "primary_type_non_empty dflt ts =
     (case max_by snd (filter (\<lambda>(k, n). k \<noteq> ''empty'') ts) of
        None \<Rightarrow> dflt
      | Some (k, n) \<Rightarrow> k)"

definition always_entry :: "entry \<Rightarrow> error + report_line list" where
  "always_entry = (\<lambda>(col, st, r).
     (case primary_type_all (types st) of
        Inl e \<Rightarrow> Inl e
      | Inr t \<Rightarrow> Inr ([ColumnName col, TypeLine t] @
                      (if sample_values st \<noteq> []
                       then [SampleLine (take 60 (hd (sample_values st)))] else []))))"

definition partly_entry :: "entry \<Rightarrow> error + report_line list" where
  \<comment> \<open>the loop body of the mostly-filled and of the sometimes-filled section\<close>
  "partly_entry = (\<lambda>(col, st, r).
     (case primary_type_all (types st) of
        Inl e \<Rightarrow> Inl e
      | Inr t \<Rightarrow> Inr [ColumnName col, FillRateMissing r (empty st), TypeLine t]))"

definition rarely_entry :: "entry \<Rightarrow> error + report_line list" where
  "rarely_entry = (\<lambda>(col, st, r).
     Inr [ColumnName col, FillRateFilledMissing r (filled st) (empty st),
          TypeLine (primary_type_non_empty ''N/A'' (types st))])"

definition bucket_section ::
  "string \<Rightarrow> (entry \<Rightarrow> error + report_line list) \<Rightarrow> entry list \<Rightarrow> printed" where
  "bucket_section heading body es =
     then_print ([Heading heading, Dashes], None)
       (if es \<noteq> [] then print_entries body es else ([NoneLine], None))"

definition cosponsor_section :: "analysis \<Rightarrow> printed" where
  \<comment> \<open>\<open>cosponsor_stats\<close> has three keys, so \<open>if cosponsor_stats\<close> holds; the first
      formatted line divides by \<open>total_rows\<close>\<close>
  "cosponsor_section a =
     then_print ([Heading ''COSPONSOR ANALYSIS'', Dashes], None)
       (if total_rows a = 0 then ([], Some ZeroDivisionError)
        else ([BillsWithCosponsors (bills_with_cosponsors a) (total_rows a)
                 (of_nat (bills_with_cosponsors a) / of_nat (total_rows a) * 100),
               TotalCosponsors (total_cosponsors a),
               AvgCosponsors (avg_per_bill a)], None))"

definition sorted_terms :: "(string \<times> nat) list \<Rightarrow> (string \<times> nat) list" where
  \<comment> \<open>\<open>sorted(subject_terms.items(), key=lambda x: x[1], reverse=True)\<close>: stable\<close>
  "sorted_terms ts = sort_key (\<lambda>(t, c). - int c) ts"

fun term_bars :: "nat \<Rightarrow> (string \<times> nat) list \<Rightarrow> printed" where
  \<comment> \<open>\<open>for term, count in sorted_terms[:30]\<close>; the first argument is \<open>sorted_terms[0][1]\<close>,
      and \<open>int(x)\<close> of a non-negative \<open>x\<close> is its floor\<close>
  "term_bars top_count [] = ([], None)"
| "term_bars top_count ((term, cnt) # rest) =
     (if top_count = 0 then ([], Some ZeroDivisionError)
      else then_print
             ([TermBar cnt (nat \<lfloor>(of_nat cnt / of_nat top_count) * (30 :: rat)\<rfloor>) term], None)
             (term_bars top_count rest))"

definition terms_section :: "analysis \<Rightarrow> printed" where
  "terms_section a =
     then_print ([Heading ''BILL SUBJECT TERMS ANALYSIS'', Dashes], None)
       (if total_rows a = 0 then ([], Some ZeroDivisionError)
        else then_print
               ([BillsWithTerms (bills_with_subject_terms a) (total_rows a)
                   (of_nat (bills_with_subject_terms a) / of_nat (total_rows a) * 100),
                 UniqueTerms (length (subject_terms a))], None)
               (if subject_terms a \<noteq> []
                then (let st = sorted_terms (subject_terms a)
                      in then_print ([TopTermsHeading], None)
                           (then_print (term_bars (snd (hd st)) (take 30 st))
                              (if length st > 30 then ([MoreTerms (length st - 30)], None)
                               else ([], None))))
                else ([], None)))"

definition sql_name :: "string \<Rightarrow> string" where
  \<comment> \<open>\<open>col.lower().replace(" ", "_").replace("-", "_")\<close>\<close>
  "sql_name col =
     map (\<lambda>c. if c = CHR ''-'' then CHR ''_'' else c)
       (map (\<lambda>c. if c = CHR '' '' then CHR ''_'' else c) (lower col))"

definition sql_type :: "string \<Rightarrow> string" where
  "sql_type primary_type =
     (if primary_type = ''date'' then ''DATE''
      else if primary_type = ''url'' then ''TEXT''
      else if primary_type = ''integer'' then ''INTEGER''
      else ''TEXT'')"

definition schema_always_entry :: "entry \<Rightarrow> error + report_line list" where
  "schema_always_entry = (\<lambda>(col, st, r).
     (case primary_type_all (types st) of
        Inl e \<Rightarrow> Inl e
      | Inr t \<Rightarrow> Inr [SqlNotNull (sql_name col) (sql_type t)]))"

definition schema_other_entry :: "entry \<Rightarrow> error + report_line list" where
  "schema_other_entry = (\<lambda>(col, st, r).
     Inr [SqlNullable (sql_name col)
            (sql_type (primary_type_non_empty ''string'' (types st))) r])"

definition schema_section :: "buckets \<Rightarrow> printed" where
  "schema_section b =
     then_print
       ([Rule, Title ''RECOMMENDED DB SCHEMA (based on analysis)'', Rule,
         Sql ''```sql'', Sql ''CREATE TABLE bills ('',
         Sql ''  id UUID PRIMARY KEY DEFAULT gen_random_uuid(),''], None)
       (then_print (print_entries schema_always_entry (always_filled b))
          (then_print
             (print_entries schema_other_entry
                (mostly_filled b @ sometimes_filled b @ rarely_filled b))
             ([Sql ''  created_at TIMESTAMPTZ DEFAULT NOW()'', Sql '');'', Sql ''```'',
               Rule], None)))"

definition print_report :: "analysis \<Rightarrow> printed" where
  "print_report a =
     (let b = bucket_columns (columns a)
      in foldr then_print
           [([Rule, Title ''CSV DATA ANALYSIS REPORT'', Rule,
              TotalRows (total_rows a), AnalyzedColumns (length (columns a))], None),
            bucket_section ''ALWAYS FILLED (100%) - Safe for NOT NULL''
              always_entry (always_filled b),
            bucket_section ''MOSTLY FILLED (90-99%) - Consider NULLABLE''
              partly_entry (mostly_filled b),
            bucket_section ''SOMETIMES FILLED (50-89%) - NULLABLE''
              partly_entry (sometimes_filled b),
            bucket_section ''RARELY FILLED (<50%) - Optional/NULLABLE''
              rarely_entry (rarely_filled b),
            cosponsor_section a,
            terms_section a,
            schema_section b]
           ([], None))"

text \<open>
  \<open>main\<close> reads the command line, the default path and the file system, and leaves the
  lines on standard output and the exit status. A line is one of \<open>main\<close>'s own
  messages or a line of the report.
\<close>

datatype out_line =
    Analyzing string
  | PleaseWait
  | ErrorNoFile
  | Usage
  | ErrorFileNotFound string
  | ErrorMessage error
  | Report report_line

definition main :: "string list \<Rightarrow> string \<Rightarrow> file_system \<Rightarrow> out_line list \<times> nat" where
  "main argv default_path fs =
     (if length argv > 1 \<or> fs default_path \<noteq> None
      then (let filepath = (if length argv > 1 then argv ! 1 else default_path);
                started = [Analyzing filepath, PleaseWait]
            in case analyze_csv fs filepath of
                 Inl FileNotFoundError \<Rightarrow> (started @ [ErrorFileNotFound filepath], 1)
               | Inl e \<Rightarrow> (started @ [ErrorMessage e], 1)
               | Inr a \<Rightarrow>
                   (case print_report a of
                      (ls, None) \<Rightarrow> (started @ map Report ls, 0)
                    | (ls, Some e) \<Rightarrow> (started @ map Report ls @ [ErrorMessage e], 1)))
      else ([ErrorNoFile, Usage], 1))"

section \<open>Notions used to state the properties\<close>

text \<open>
  The cell that the per-column statistics read for a column name: the one at the first
  position of that name in the header, or the empty string when the row is shorter.
\<close>

definition cell_of :: "string list \<Rightarrow> string list \<Rightarrow> string \<Rightarrow> string" where
  "cell_of all_headers row_values col =
     (case indices_of col all_headers of
        [] \<Rightarrow> []
      | i # rest \<Rightarrow> if i < length row_values then row_values ! i else [])"

text \<open>
  The number of pairs of a data row and a tag column in which the trimmed cell is the
  tag \<open>t\<close> and is not blank.
\<close>

definition tag_occurrences :: "string list \<Rightarrow> string list list \<Rightarrow> string \<Rightarrow> nat" where
  "tag_occurrences all_headers rows t =
     sum_list (map (\<lambda>row_values.
        length (filter (\<lambda>idx. idx < length row_values \<and> nonblank (row_values ! idx)
                              \<and> strip (row_values ! idx) = t)
                  (indices_of ''billSubjectTerm'' all_headers))) rows)"

definition row_terms :: "nat list \<Rightarrow> string list \<Rightarrow> string list" where
  \<comment> \<open>the tags that one row contributes, in column order\<close>
  "row_terms si row_values =
     map (\<lambda>idx. strip (row_values ! idx))
       (filter (\<lambda>idx. idx < length row_values \<and> nonblank (row_values ! idx)) si)"

text \<open>The entry that the bucketing loop stores for a column: name, counters and fill rate.\<close>

definition entry_of :: "string \<times> column_stat \<Rightarrow> entry" where
  "entry_of = (\<lambda>(col, st). (col, st, fill_rate st))"

subsection \<open>Invariants of the pass\<close>

definition stat_ok :: "nat \<Rightarrow> column_stat \<Rightarrow> bool" where
  "stat_ok n st =
     (filled st + empty st = total st \<and> total st = n
      \<and> sum_list (map snd (types st)) = total st)"

definition wf_analysis :: "analysis \<Rightarrow> bool" where
  "wf_analysis a =
     (map fst (columns a) = relevant_headers a \<and> distinct (relevant_headers a))"

definition counts_ok :: "analysis \<Rightarrow> bool" where
  "counts_ok a = (\<forall>(col, st) \<in> set (columns a). stat_ok (total_rows a) st)"

definition samples_ok :: "string set \<Rightarrow> column_stat \<Rightarrow> bool" where
  "samples_ok vs st =
     (length (sample_values st) \<le> 3 \<and> distinct (sample_values st)
      \<and> set (sample_values st) \<subseteq> make_sample ` vs)"

definition samples_inv :: "string list \<Rightarrow> string list set \<Rightarrow> analysis \<Rightarrow> bool" where
  "samples_inv hs rows a =
     (\<forall>(col, st) \<in> set (columns a). samples_ok ((\<lambda>row. cell_of hs row col) ` rows) st)"

definition freq_ok :: "(string \<Rightarrow> nat) \<Rightarrow> (string \<times> nat) list \<Rightarrow> bool" where
  "freq_ok N c = (\<forall>t. map_of c t = (if N t = 0 then None else Some (N t)))"

subsection \<open>A small input file\<close>

text \<open>
  Three lines of metadata, the header \<open>A,billSubjectTerm,billSubjectTerm\<close> and the two
  data rows \<open>1,,x\<close> and \<open>2,y,\<close>; and the same file with the two rows exchanged.
\<close>

definition example_meta :: "file_line list" where
  "example_meta = [Line [''Bills export''], Line [], Line [''generated'']]"

definition example_header :: "string list" where
  "example_header = [''A'', ''billSubjectTerm'', ''billSubjectTerm'']"

definition example_rows :: "string list list" where
  "example_rows = [[''1'', [], ''x''], [''2'', ''y'', []]]"

definition example_file :: "file_line list" where
  "example_file = example_meta @ Line example_header # map Line example_rows"

definition example_fs :: file_system where
  "example_fs path = (if path = ''bills.csv'' then Some example_file else None)"

definition swapped_fs :: file_system where
  "swapped_fs path =
     (if path = ''bills.csv''
      then Some (example_meta @ Line example_header # map Line (rev example_rows))
      else None)"

definition example_stat :: column_stat where
  "example_stat =
     \<lparr>total = 2, filled = 2, empty = 0, types = [(''integer'', 2)],
      sample_values = [''1'', ''2'']\<rparr>"

definition example_analysis :: analysis where
  "example_analysis =
     \<lparr>total_rows = 2,
      columns = [(''A'', example_stat)],
      relevant_headers = [''A''],
      subject_terms = [(''x'', 1), (''y'', 1)],
      bills_with_subject_terms = 2,
      bills_with_cosponsors = 0,
      total_cosponsors = 0\<rparr>"

subsection \<open>Integer literals, in the words of the specification and as \<open>int\<close> reads them\<close>




subsection \<open>Two more input files\<close>

text \<open>
  The file of the scenario with the header written \<open>A,B,B\<close>, and a file that ends after its
  header \<open>A,B\<close>.
\<close>

definition literal_fs :: file_system where
  "literal_fs path =
     (if path = ''bills.csv''
      then Some (example_meta @ Line [''A'', ''B'', ''B''] # map Line example_rows)
      else None)"

definition literal_analysis :: analysis where
  "literal_analysis =
     \<lparr>total_rows = 2,
      columns =
        [(''A'', example_stat),
         (''B'', \<lparr>total = 2, filled = 1, empty = 1,
                  types = [(''empty'', 1), (''string'', 1)], sample_values = [''y'']\<rparr>)],
      relevant_headers = [''A'', ''B''],
      subject_terms = [],
      bills_with_subject_terms = 0,
      bills_with_cosponsors = 0,
      total_cosponsors = 0\<rparr>"

definition header_only_fs :: file_system where
  "header_only_fs path =
     (if path = ''empty.csv'' then Some (example_meta @ [Line [''A'', ''B'']]) else None)"

definition header_only_analysis :: analysis where
  "header_only_analysis =
     \<lparr>total_rows = 0,
      columns = [(''A'', new_stat), (''B'', new_stat)],
      relevant_headers = [''A'', ''B''],
      subject_terms = [],
      bills_with_subject_terms = 0,
      bills_with_cosponsors = 0,
      total_cosponsors = 0\<rparr>"

section \<open>Type inference\<close>

text \<open>
  C4. \<open>infer_type\<close> is a function from strings to the six type tags (it reads nothing
  but its argument, so equal arguments give equal tags), and it maps the empty string
  to \<open>empty\<close>, \<open>2024-01-15\<close> to a tag other than \<open>date\<close>, \<open>01/15/2024\<close> to
  \<open>date\<close>, \<open>42\<close> to \<open>integer\<close>, \<open>42.5\<close> to \<open>float\<close>, \<open>https://example.com\<close> to
  \<open>url\<close> and \<open>hello\<close> to \<open>string\<close>.
\<close>

theorem infer_type_tags_and_examples:
  "infer_type s \<in> {''empty'', ''url'', ''date'', ''integer'', ''float'', ''string''}
   \<and> infer_type '''' = ''empty''
   \<and> infer_type ''2024-01-15'' \<noteq> ''date''
   \<and> infer_type ''01/15/2024'' = ''date''
   \<and> infer_type ''42'' = ''integer''
   \<and> infer_type ''42.5'' = ''float''
   \<and> infer_type ''https://example.com'' = ''url''
   \<and> infer_type ''hello'' = ''string''"
proof -
  have tags: "infer_type s \<in> {''empty'', ''url'', ''date'', ''integer'', ''float'', ''string''}"
    unfolding infer_type_def Let_def by simp
  have e1: "infer_type '''' = ''empty''" by code_simp
  have e2: "infer_type ''2024-01-15'' \<noteq> ''date''" by code_simp
  have e3: "infer_type ''01/15/2024'' = ''date''" by code_simp
  have e4: "infer_type ''42'' = ''integer''" by code_simp
  have e5: "infer_type ''42.5'' = ''float''" by code_simp
  have e6: "infer_type ''https://example.com'' = ''url''" by code_simp
  have e7: "infer_type ''hello'' = ''string''" by code_simp
  from tags e1 e2 e3 e4 e5 e6 e7 show ?thesis by blast
qed

section \<open>Scalar coercion of the storage wrapper\<close>

text \<open>
  C10. In \<open>_infer_type\<close> the null and boolean tokens win over numeric parsing: the empty
  string and any spelling of \<open>null\<close>, \<open>none\<close>, \<open>nil\<close> give \<open>None\<close>; any spelling of
  \<open>true\<close>, \<open>yes\<close> and the string \<open>1\<close> give \<open>True\<close>; any spelling of \<open>false\<close>, \<open>no\<close>
  and the string \<open>0\<close> give \<open>False\<close>; none of them is returned as an integer.
\<close>

theorem coerce_null_and_bool_first:
  assumes "a = [] \<or> lower a \<in> {''null'', ''none'', ''nil''}"
      and "lower b \<in> {''true'', ''yes'', ''1''}"
      and "lower c \<in> {''false'', ''no'', ''0''}"
  shows "infer_type_coerce (Some a) = PyNone
       \<and> infer_type_coerce (Some b) = PyBool True
       \<and> infer_type_coerce (Some c) = PyBool False
       \<and> infer_type_coerce (Some a) \<noteq> PyInt n
       \<and> infer_type_coerce (Some b) \<noteq> PyInt n
       \<and> infer_type_coerce (Some c) \<noteq> PyInt n"
proof -
  have nb: "b \<noteq> []" and nc: "c \<noteq> []" using assms by (auto simp: lower_def)
  have b1: "lower b \<notin> {''null'', ''none'', ''nil''}" using assms(2) by auto
  have c1: "lower c \<notin> {''null'', ''none'', ''nil''}" using assms(3) by auto
  have c2: "lower c \<notin> {''true'', ''yes'', ''1''}" using assms(3) by auto
  have ra: "infer_type_coerce (Some a) = PyNone"
    using assms(1) unfolding infer_type_coerce_def by (cases "a = []") simp_all
  have rb: "infer_type_coerce (Some b) = PyBool True"
    unfolding infer_type_coerce_def using nb b1 assms(2) by (simp del: insert_iff)
  have rc: "infer_type_coerce (Some c) = PyBool False"
    unfolding infer_type_coerce_def using nc c1 c2 assms(3) by (simp del: insert_iff)
  from ra rb rc show ?thesis by simp
qed

text \<open>
  The theorem at \<open>NULL\<close>, \<open>Yes\<close> and \<open>0\<close>; \<open>int("0")\<close> would succeed, and yet the
  result is \<open>False\<close>.
\<close>

theorem coerce_null_and_bool_first_witness:
  "(''NULL'' = [] \<or> lower ''NULL'' \<in> {''null'', ''none'', ''nil''})
   \<and> lower ''Yes'' \<in> {''true'', ''yes'', ''1''}
   \<and> lower ''0'' \<in> {''false'', ''no'', ''0''}
   \<and> py_int ''0'' = Some 0
   \<and> infer_type_coerce (Some ''NULL'') = PyNone
   \<and> infer_type_coerce (Some ''Yes'') = PyBool True
   \<and> infer_type_coerce (Some ''0'') = PyBool False
   \<and> infer_type_coerce (Some ''0'') \<noteq> PyInt 0"
proof -
  have h1: "''NULL'' = [] \<or> lower ''NULL'' \<in> {''null'', ''none'', ''nil''}" by code_simp
  have h2: "lower ''Yes'' \<in> {''true'', ''yes'', ''1''}" by code_simp
  have h3: "lower ''0'' \<in> {''false'', ''no'', ''0''}" by code_simp
  have h4: "py_int ''0'' = Some 0" by code_simp
  from coerce_null_and_bool_first [OF h1 h2 h3, of 0] h1 h2 h3 h4 show ?thesis by blast
qed

section \<open>The small input file, analysed\<close>

lemma example_analysis_eval: "analyze_csv example_fs ''bills.csv'' = Inr example_analysis"
  by code_simp

lemma example_fs_file: "example_fs ''bills.csv'' = Some example_file"
  by (simp add: example_fs_def)

lemma example_stat_mem: "(''A'', example_stat) \<in> set (columns example_analysis)"
  by (simp add: example_analysis_def)

lemma example_header_line: "example_file ! 3 = Line example_header"
  by (simp add: example_file_def example_meta_def)

lemma example_file_shape:
  "example_fs ''bills.csv'' = Some (example_meta @ Line example_header # map Line example_rows)"
  by (simp add: example_fs_def example_file_def)

lemma swapped_file_shape:
  "swapped_fs ''bills.csv'' =
     Some (example_meta @ Line example_header # map Line (rev example_rows))"
  by (simp add: swapped_fs_def)

lemma example_meta_length: "length example_meta = 3"
  by (simp add: example_meta_def)

section \<open>Counters of the columns\<close>

lemma relevant_fold_inv:
  "seen = set acc \<Longrightarrow> distinct acc \<Longrightarrow>
   fst (fold relevant_step hs (seen, acc)) = set (snd (fold relevant_step hs (seen, acc)))
   \<and> distinct (snd (fold relevant_step hs (seen, acc)))"
proof (induction hs arbitrary: seen acc)
  case Nil
  then show ?case by simp
next
  case (Cons h hs)
  show ?case
  proof (cases "h \<notin> seen \<and> h \<noteq> ''billSubjectTerm'' \<and> \<not> should_ignore_column h")
    case True
    then have step: "relevant_step h (seen, acc) = (insert h seen, acc @ [h])"
      by (simp add: relevant_step_def)
    have "insert h seen = set (acc @ [h])" using Cons.prems by simp
    moreover have "distinct (acc @ [h])" using Cons.prems True by simp
    ultimately show ?thesis using Cons.IH [of "insert h seen" "acc @ [h]"] step by simp
  next
    case False
    then have step: "relevant_step h (seen, acc) = (seen, acc)"
      by (auto simp add: relevant_step_def)
    show ?thesis using Cons.IH [OF Cons.prems] step by simp
  qed
qed

lemma distinct_relevant_headers: "distinct (get_relevant_headers hs)"
  using relevant_fold_inv [of "{}" "[]" hs] by (simp add: get_relevant_headers_def)

lemma map_entry_as_map:
  "distinct (map fst xs) \<Longrightarrow>
   AList.map_entry k f xs = map (\<lambda>(k', v). (k', if k' = k then f v else v)) xs"
proof (induction xs)
  case Nil
  then show ?case by simp
next
  case (Cons p ps)
  obtain a b where p: "p = (a, b)" by (cases p)
  show ?case
  proof (cases "a = k")
    case True
    then have "k \<notin> fst ` set ps" using Cons.prems p by auto
    then have "map (\<lambda>(k', v). (k', if k' = k then f v else v)) ps = ps"
      by (intro map_idI) (auto simp: image_iff)
    then show ?thesis using True p by simp
  next
    case False
    then show ?thesis using Cons p by simp
  qed
qed

lemma fold_column_step:
  "distinct (map fst stats) \<Longrightarrow> distinct ks \<Longrightarrow>
   fold (column_step rd) ks stats =
     map (\<lambda>(k, st). (k, if k \<in> set ks then update_column (row_get rd k) st else st)) stats"
proof (induction ks arbitrary: stats)
  case Nil
  then show ?case by (simp add: case_prod_unfold)
next
  case (Cons k ks)
  let ?s1 = "map (\<lambda>(k', v). (k', if k' = k then update_column (row_get rd k) v else v)) stats"
  have s1: "column_step rd k stats = ?s1"
    unfolding column_step_def using Cons.prems(1) by (rule map_entry_as_map)
  have keys: "map fst ?s1 = map fst stats" by (simp add: case_prod_unfold comp_def)
  have d1: "distinct (map fst ?s1)" unfolding keys by (rule Cons.prems(1))
  have d2: "distinct ks" and nk: "k \<notin> set ks" using Cons.prems(2) by simp_all
  have "fold (column_step rd) (k # ks) stats = fold (column_step rd) ks ?s1"
    using s1 by simp
  also have "\<dots> = map (\<lambda>(k', st). (k', if k' \<in> set ks then update_column (row_get rd k') st else st)) ?s1"
    using Cons.IH [OF d1 d2] .
  also have "\<dots> = map (\<lambda>(k', st). (k', if k' \<in> set (k # ks) then update_column (row_get rd k') st else st)) stats"
    using nk by (auto simp: case_prod_unfold)
  finally show ?case .
qed

lemma sum_incr: "sum_list (map snd (incr ts k)) = sum_list (map snd ts) + 1"
  by (induction ts k rule: incr.induct) auto

lemma stat_ok_update: "stat_ok n st \<Longrightarrow> stat_ok (Suc n) (update_column v st)"
  by (simp add: stat_ok_def update_column_def Let_def sum_incr)

lemma columns_process_row:
  assumes "wf_analysis a"
  shows "columns (process_row hs si ci row a) =
           map (\<lambda>(k, st). (k, update_column
                  (row_get (make_row_dict (relevant_headers a) hs row) k) st)) (columns a)"
proof -
  let ?rd = "make_row_dict (relevant_headers a) hs row"
  have d: "distinct (map fst (columns a))" "distinct (relevant_headers a)"
    using assms by (simp_all add: wf_analysis_def)
  have "columns (process_row hs si ci row a) = fold (column_step ?rd) (relevant_headers a) (columns a)"
    by (simp add: process_row_def Let_def case_prod_unfold)
  also have "\<dots> = map (\<lambda>(k, st). (k, if k \<in> set (relevant_headers a)
                 then update_column (row_get ?rd k) st else st)) (columns a)"
    using d by (rule fold_column_step)
  also have "\<dots> = map (\<lambda>(k, st). (k, update_column (row_get ?rd k) st)) (columns a)"
  proof (rule map_cong [OF refl])
    fix x assume "x \<in> set (columns a)"
    then have "fst x \<in> set (map fst (columns a))" by simp
    then have "fst x \<in> set (relevant_headers a)"
      using assms by (simp only: wf_analysis_def)
    then show "(case x of (k, st) \<Rightarrow> (k, if k \<in> set (relevant_headers a)
                 then update_column (row_get ?rd k) st else st)) =
               (case x of (k, st) \<Rightarrow> (k, update_column (row_get ?rd k) st))"
      by (cases x) simp
  qed
  finally show ?thesis .
qed

lemma other_fields_process_row:
  "relevant_headers (process_row hs si ci row a) = relevant_headers a"
  "total_rows (process_row hs si ci row a) = Suc (total_rows a)"
  by (simp_all add: process_row_def Let_def case_prod_unfold)

lemma wf_process_row: "wf_analysis a \<Longrightarrow> wf_analysis (process_row hs si ci row a)"
  by (simp add: wf_analysis_def columns_process_row other_fields_process_row
        case_prod_unfold comp_def)

lemma counts_ok_process_row:
  assumes "wf_analysis a" "counts_ok a"
  shows "counts_ok (process_row hs si ci row a)"
  using assms(2)
  by (auto simp: counts_ok_def columns_process_row [OF assms(1)] other_fields_process_row
        intro: stat_ok_update)

lemma process_rows_inv:
  "process_rows hs si ci a ls = Inr a' \<Longrightarrow> wf_analysis a \<Longrightarrow> counts_ok a \<Longrightarrow>
   wf_analysis a' \<and> counts_ok a' \<and> total_rows a' = total_rows a + length ls"
proof (induction hs si ci a ls rule: process_rows.induct)
  case (1 hs si ci a)
  then show ?case by simp
next
  case (2 hs si ci a rest)
  then show ?case by simp
next
  case (3 hs si ci a row rest)
  have "wf_analysis (process_row hs si ci row a)" using "3.prems"(2) by (rule wf_process_row)
  moreover have "counts_ok (process_row hs si ci row a)"
    using "3.prems"(2,3) by (rule counts_ok_process_row)
  ultimately show ?case using "3.IH" "3.prems"(1) by (simp add: other_fields_process_row)
qed

lemma start_ok: "wf_analysis (start_analysis hs) \<and> counts_ok (start_analysis hs)
   \<and> total_rows (start_analysis hs) = 0"
  by (simp add: wf_analysis_def counts_ok_def start_analysis_def comp_def
        distinct_relevant_headers stat_ok_def new_stat_def)

lemma skip_lines_length: "skip_lines n f = Inr f1 \<Longrightarrow> length f = n + length f1"
proof (induction n f rule: skip_lines.induct)
  case (1 f)
  then show ?case by simp
next
  case (2 n f)
  then show ?case by (cases f rule: next_line.cases) (auto split: sum.splits)
qed

lemma next_line_length: "next_line f = Inr (cells, rest) \<Longrightarrow> length f = Suc (length rest)"
  by (cases f rule: next_line.cases) auto

lemma analyze_csv_Inr:
  assumes "analyze_csv fs filepath = Inr a"
  obtains f f1 hs f2 where "fs filepath = Some f" "skip_lines 3 f = Inr f1"
    "next_line f1 = Inr (hs, f2)"
    "process_rows hs (indices_of ''billSubjectTerm'' hs) (indices_of ''Cosponsor'' hs)
       (start_analysis hs) f2 = Inr a"
  using assms unfolding analyze_csv_def
  by (auto split: option.splits sum.splits prod.splits)

text \<open>
  C3. After the pass over any file, every relevant column has an entry in \<open>columns\<close>,
  and for each entry: \<open>filled + empty = total\<close>, \<open>total\<close> is the number of data rows
  processed (the lines of the file after the three metadata lines and the header), and
  the values of the \<open>types\<close> histogram, the tag \<open>empty\<close> included, add up to \<open>total\<close>.
\<close>

theorem column_counts_invariant:
  assumes "analyze_csv fs filepath = Inr a" and "fs filepath = Some f"
      and "(col, st) \<in> set (columns a)"
  shows "map fst (columns a) = relevant_headers a
       \<and> total_rows a + 4 = length f
       \<and> filled st + empty st = total st
       \<and> total st = total_rows a
       \<and> sum_list (map snd (types st)) = total st"
proof -
  from assms(1) obtain f' f1 hs f2 where
    f: "fs filepath = Some f'" and sk: "skip_lines 3 f' = Inr f1"
    and nx: "next_line f1 = Inr (hs, f2)"
    and pr: "process_rows hs (indices_of ''billSubjectTerm'' hs) (indices_of ''Cosponsor'' hs)
       (start_analysis hs) f2 = Inr a"
    by (rule analyze_csv_Inr)
  have ff: "f' = f" using f assms(2) by simp
  have inv: "wf_analysis a \<and> counts_ok a \<and> total_rows a = 0 + length f2"
    using process_rows_inv [OF pr] start_ok [of hs] by simp
  have len: "length f = 4 + length f2"
    using skip_lines_length [OF sk] next_line_length [OF nx] ff by simp
  have "stat_ok (total_rows a) st" using inv assms(3) by (auto simp: counts_ok_def)
  then show ?thesis using inv len by (simp add: wf_analysis_def stat_ok_def)
qed

theorem column_counts_invariant_witness:
  "analyze_csv example_fs ''bills.csv'' = Inr example_analysis
   \<and> example_fs ''bills.csv'' = Some example_file
   \<and> (''A'', example_stat) \<in> set (columns example_analysis)
   \<and> map fst (columns example_analysis) = relevant_headers example_analysis
   \<and> total_rows example_analysis + 4 = length example_file
   \<and> filled example_stat + empty example_stat = total example_stat
   \<and> total example_stat = total_rows example_analysis
   \<and> sum_list (map snd (types example_stat)) = total example_stat"
proof -
  note h1 = example_analysis_eval and h2 = example_fs_file and h3 = example_stat_mem
  from column_counts_invariant [OF h1 h2 h3] h1 h2 h3 show ?thesis by blast
qed

section \<open>Sample values\<close>

lemma fold_row_dict:
  "fold (row_dict_step rel row) (enumerate n hs) d h =
     (case d h of
        Some v \<Rightarrow> Some v
      | None \<Rightarrow>
          (case filter (\<lambda>(i, h'). h' = h) (enumerate n hs) of
             [] \<Rightarrow> None
           | (i, h') # rest \<Rightarrow>
               if h \<in> set rel then Some (if i < length row then row ! i else []) else None))"
proof (induction hs arbitrary: n d)
  case Nil
  then show ?case by (simp split: option.splits)
next
  case (Cons x hs)
  show ?case
  proof (cases "d h")
    case (Some v)
    then have "row_dict_step rel row (n, x) d h = Some v"
      by (auto simp add: row_dict_step_def)
    then show ?thesis using Some Cons.IH [of "Suc n" "row_dict_step rel row (n, x) d"] by simp
  next
    case None
    show ?thesis
    proof (cases "x = h")
      case True
      then show ?thesis using None Cons.IH [of "Suc n" "row_dict_step rel row (n, x) d"]
        by (simp add: row_dict_step_def split: list.splits)
    next
      case False
      then have "row_dict_step rel row (n, x) d h = None"
        using None by (simp add: row_dict_step_def)
      then show ?thesis using False None Cons.IH [of "Suc n" "row_dict_step rel row (n, x) d"]
        by simp
    qed
  qed
qed

lemma row_get_cell_of:
  "h \<in> set rel \<Longrightarrow> row_get (make_row_dict rel hs row) h = cell_of hs row h"
  unfolding row_get_def make_row_dict_def cell_of_def indices_of_def fold_row_dict
  by (simp split: list.splits prod.splits)

lemma samples_update:
  "sample_values (update_column v st) = sample_values st
   \<or> (length (sample_values st) < 3 \<and> make_sample v \<notin> set (sample_values st)
      \<and> sample_values (update_column v st) = sample_values st @ [make_sample v])"
  by (simp add: update_column_def Let_def)

lemma samples_ok_update:
  assumes "samples_ok vs st"
  shows "samples_ok (insert v vs) (update_column v st)"
  using assms samples_update [of v st] unfolding samples_ok_def by auto

lemma samples_inv_process_row:
  assumes wf: "wf_analysis a" and inv: "samples_inv hs R a"
  shows "samples_inv hs (insert row R) (process_row hs si ci row a)"
  unfolding samples_inv_def columns_process_row [OF wf]
proof (clarsimp)
  fix col st
  assume mem: "(col, st) \<in> set (columns a)"
  then have "col \<in> set (map fst (columns a))" by force
  then have rel: "col \<in> set (relevant_headers a)" using wf by (simp only: wf_analysis_def)
  have "samples_ok ((\<lambda>row. cell_of hs row col) ` R) st"
    using inv mem by (auto simp: samples_inv_def)
  then have "samples_ok (insert (cell_of hs row col) ((\<lambda>row. cell_of hs row col) ` R))
               (update_column (cell_of hs row col) st)"
    by (rule samples_ok_update)
  then show "samples_ok (insert (cell_of hs row col) ((\<lambda>row. cell_of hs row col) ` R))
               (update_column (row_get (make_row_dict (relevant_headers a) hs row) col) st)"
    by (simp add: row_get_cell_of [OF rel])
qed

lemma process_rows_samples:
  "process_rows hs si ci a ls = Inr a' \<Longrightarrow> wf_analysis a \<Longrightarrow> samples_inv hs R a \<Longrightarrow>
   samples_inv hs (R \<union> {row. Line row \<in> set ls}) a'"
proof (induction hs si ci a ls arbitrary: R rule: process_rows.induct)
  case (1 hs si ci a)
  then show ?case by simp
next
  case (2 hs si ci a rest)
  then show ?case by simp
next
  case (3 hs si ci a row rest)
  have w: "wf_analysis (process_row hs si ci row a)" using "3.prems"(2) by (rule wf_process_row)
  have s: "samples_inv hs (insert row R) (process_row hs si ci row a)"
    using "3.prems"(2,3) by (rule samples_inv_process_row)
  have "samples_inv hs (insert row R \<union> {r. Line r \<in> set rest}) a'"
    using "3.IH" [OF _ w s] "3.prems"(1) by simp
  moreover have "insert row R \<union> {r. Line r \<in> set rest} = R \<union> {r. Line r \<in> set (Line row # rest)}"
    by auto
  ultimately show ?case by simp
qed

lemma skip_lines_drop: "skip_lines n f = Inr f1 \<Longrightarrow> f1 = drop n f \<and> n \<le> length f"
proof (induction n f rule: skip_lines.induct)
  case (1 f)
  then show ?case by simp
next
  case (2 n f)
  then show ?case by (cases f rule: next_line.cases) (auto split: sum.splits)
qed

lemma next_line_Cons: "next_line f = Inr (cells, rest) \<Longrightarrow> f = Line cells # rest"
  by (cases f rule: next_line.cases) auto

lemma analyze_csv_shape:
  assumes "analyze_csv fs filepath = Inr a" and "fs filepath = Some f"
  obtains hs where "f ! 3 = Line hs" "4 \<le> length f"
    "process_rows hs (indices_of ''billSubjectTerm'' hs) (indices_of ''Cosponsor'' hs)
       (start_analysis hs) (drop 4 f) = Inr a"
proof -
  from assms(1) obtain f' f1 hs f2 where
    f: "fs filepath = Some f'" and sk: "skip_lines 3 f' = Inr f1"
    and nx: "next_line f1 = Inr (hs, f2)"
    and pr: "process_rows hs (indices_of ''billSubjectTerm'' hs) (indices_of ''Cosponsor'' hs)
       (start_analysis hs) f2 = Inr a"
    by (rule analyze_csv_Inr)
  have ff: "f' = f" using f assms(2) by simp
  have d: "drop 3 f = Line hs # f2" and l3: "3 \<le> length f"
    using skip_lines_drop [OF sk] next_line_Cons [OF nx] ff by simp_all
  have lt: "3 < length f" using d l3 by (cases "length f = 3") auto
  have "f ! 3 = Line hs" using d lt by (metis Cons_nth_drop_Suc list.inject)
  moreover have "drop 4 f = f2"
  proof -
    have "drop 4 f = drop 1 (drop 3 f)" by simp
    then show ?thesis using d by simp
  qed
  moreover have "4 \<le> length f" using lt by simp
  ultimately show ?thesis using that pr by simp
qed

text \<open>
  C7. For every column after the pass over any file: the sample list has at most three
  entries and no entry twice, and every stored sample comes from a cell of that column
  in some data row: it is the cell itself when the cell has at most 80 characters, and
  otherwise its first 80 characters followed by the marker \<open>...\<close>.
\<close>

theorem sample_values_bounded:
  assumes "analyze_csv fs filepath = Inr a" and "fs filepath = Some f"
      and "f ! 3 = Line all_headers"
      and "(col, st) \<in> set (columns a)"
      and "s \<in> set (sample_values st)"
  shows "length (sample_values st) \<le> 3 \<and> distinct (sample_values st)
       \<and> (\<exists>row_values. Line row_values \<in> set (drop 4 f)
            \<and> (length (cell_of all_headers row_values col) \<le> 80
                 \<and> s = cell_of all_headers row_values col
               \<or> 80 < length (cell_of all_headers row_values col)
                 \<and> s = take 80 (cell_of all_headers row_values col) @ ''...''))"
proof -
  from assms(1,2) obtain hs where h: "f ! 3 = Line hs"
    and pr: "process_rows hs (indices_of ''billSubjectTerm'' hs) (indices_of ''Cosponsor'' hs)
       (start_analysis hs) (drop 4 f) = Inr a"
    by (rule analyze_csv_shape)
  have hs: "hs = all_headers" using h assms(3) by simp
  have s0: "samples_inv hs {} (start_analysis hs)"
    by (simp add: samples_inv_def start_analysis_def samples_ok_def new_stat_def)
  have "samples_inv hs ({} \<union> {row. Line row \<in> set (drop 4 f)}) a"
    using pr start_ok [of hs] s0 by (intro process_rows_samples) simp_all
  then have ok: "samples_ok ((\<lambda>row. cell_of all_headers row col) `
                   {row. Line row \<in> set (drop 4 f)}) st"
    using assms(4) hs by (auto simp: samples_inv_def)
  then obtain row where r: "Line row \<in> set (drop 4 f)"
    and sv: "s = make_sample (cell_of all_headers row col)"
    using assms(5) unfolding samples_ok_def by auto
  have "length (cell_of all_headers row col) \<le> 80 \<and> s = cell_of all_headers row col
     \<or> 80 < length (cell_of all_headers row col)
       \<and> s = take 80 (cell_of all_headers row col) @ ''...''"
    using sv by (simp add: make_sample_def)
  then show ?thesis using ok r unfolding samples_ok_def by blast
qed

theorem sample_values_bounded_witness:
  "analyze_csv example_fs ''bills.csv'' = Inr example_analysis
   \<and> example_fs ''bills.csv'' = Some example_file
   \<and> example_file ! 3 = Line example_header
   \<and> (''A'', example_stat) \<in> set (columns example_analysis)
   \<and> ''1'' \<in> set (sample_values example_stat)
   \<and> length (sample_values example_stat) \<le> 3 \<and> distinct (sample_values example_stat)
   \<and> (\<exists>row_values. Line row_values \<in> set (drop 4 example_file)
        \<and> (length (cell_of example_header row_values ''A'') \<le> 80
             \<and> ''1'' = cell_of example_header row_values ''A''
           \<or> 80 < length (cell_of example_header row_values ''A'')
             \<and> ''1'' = take 80 (cell_of example_header row_values ''A'') @ ''...''))"
proof -
  note h1 = example_analysis_eval and h2 = example_fs_file and h3 = example_header_line
    and h4 = example_stat_mem
  have h5: "''1'' \<in> set (sample_values example_stat)" by (simp add: example_stat_def)
  from sample_values_bounded [OF h1 h2 h3 h4 h5] h1 h2 h3 h4 h5 show ?thesis by blast
qed

section \<open>Tag frequencies\<close>

lemma fold_subject_step:
  "fold (subject_step row) si (acc, counts) =
     (acc @ row_terms si row, fold (\<lambda>t c. incr c t) (row_terms si row) counts)"
  by (induction si arbitrary: acc counts) (simp_all add: row_terms_def subject_step_def Let_def)

lemma map_of_incr:
  "map_of (incr c t) = (map_of c)(t \<mapsto> (case map_of c t of None \<Rightarrow> 1 | Some n \<Rightarrow> n + 1))"
  by (induction c t rule: incr.induct) (auto simp: fun_eq_iff)

lemma freq_ok_incr: "freq_ok N c \<Longrightarrow> freq_ok (N(t := N t + 1)) (incr c t)"
  by (auto simp: freq_ok_def map_of_incr)

lemma freq_ok_fold:
  "freq_ok N c \<Longrightarrow> freq_ok (\<lambda>t. N t + count_list ts t) (fold (\<lambda>t c. incr c t) ts c)"
proof (induction ts arbitrary: N c)
  case Nil
  then show ?case by simp
next
  case (Cons x ts)
  have "freq_ok (\<lambda>t. (N(x := N x + 1)) t + count_list ts t) (fold (\<lambda>t c. incr c t) ts (incr c x))"
    using Cons.IH [OF freq_ok_incr [OF Cons.prems]] .
  moreover have "(\<lambda>t. (N(x := N x + 1)) t + count_list ts t) = (\<lambda>t. N t + count_list (x # ts) t)"
    by (auto simp: fun_eq_iff)
  ultimately show ?case by simp
qed

lemma count_row_terms:
  "count_list (row_terms si row) t =
     length (filter (\<lambda>idx. idx < length row \<and> nonblank (row ! idx) \<and> strip (row ! idx) = t) si)"
  by (induction si) (auto simp: row_terms_def)

lemma subject_terms_process_row:
  "subject_terms (process_row hs si ci row a) =
     fold (\<lambda>t c. incr c t) (row_terms si row) (subject_terms a)"
  by (simp add: process_row_def fold_subject_step Let_def)

lemma process_rows_Lines:
  "process_rows hs si ci a (map Line rows) = Inr (fold (process_row hs si ci) rows a)"
  by (induction rows arbitrary: a) simp_all

lemma freq_ok_rows:
  "freq_ok N (subject_terms a) \<Longrightarrow>
   freq_ok (\<lambda>t. N t + sum_list (map (\<lambda>row. count_list (row_terms si row) t) rows))
     (subject_terms (fold (process_row hs si ci) rows a))"
proof (induction rows arbitrary: N a)
  case Nil
  then show ?case by simp
next
  case (Cons row rows)
  have "freq_ok (\<lambda>t. N t + count_list (row_terms si row) t)
          (subject_terms (process_row hs si ci row a))"
    unfolding subject_terms_process_row using Cons.prems by (rule freq_ok_fold)
  from Cons.IH [OF this] show ?case by (simp add: add.assoc)
qed

lemma tag_occurrences_mset:
  "mset rows' = mset rows \<Longrightarrow> tag_occurrences hs rows' t = tag_occurrences hs rows t"
proof -
  have "sum_list (map g rows') = sum_list (map g rows)" if "mset rows' = mset rows"
    for g :: "string list \<Rightarrow> nat"
  proof -
    have "image_mset g (mset rows') = image_mset g (mset rows)"
      using that by (rule arg_cong)
    then have "sum_mset (mset (map g rows')) = sum_mset (mset (map g rows))"
      by (simp only: mset_map)
    then show ?thesis by (simp only: sum_mset_sum_list)
  qed
  then show "mset rows' = mset rows \<Longrightarrow> tag_occurrences hs rows' t = tag_occurrences hs rows t"
    unfolding tag_occurrences_def by blast
qed

lemma skip_lines_append:
  "length meta = n \<Longrightarrow> skip_lines n (meta @ X) = Inr Y \<Longrightarrow>
   Y = X \<and> skip_lines n (meta @ X') = Inr X'"
proof (induction n arbitrary: meta)
  case 0
  then show ?case by simp
next
  case (Suc n)
  then obtain m ms where meta: "meta = m # ms" by (cases meta) auto
  show ?case
  proof (cases m)
    case (Line cells)
    then show ?thesis using Suc meta by simp
  next
    case Undecodable
    then show ?thesis using Suc.prems meta by simp
  qed
qed

lemma analyze_csv_rows:
  assumes "fs filepath = Some (meta @ Line hs # map Line rows)" and "length meta = 3"
      and "analyze_csv fs filepath = Inr a"
      and "fs' filepath' = Some (meta @ Line hs # map Line rows')"
  shows "a = fold (process_row hs (indices_of ''billSubjectTerm'' hs) (indices_of ''Cosponsor'' hs))
               rows (start_analysis hs)"
    and "analyze_csv fs' filepath' =
           Inr (fold (process_row hs (indices_of ''billSubjectTerm'' hs) (indices_of ''Cosponsor'' hs))
               rows' (start_analysis hs))"
proof -
  from assms(3) obtain Y where sk: "skip_lines 3 (meta @ Line hs # map Line rows) = Inr Y"
    unfolding analyze_csv_def using assms(1) by (auto split: sum.splits)
  have Y: "Y = Line hs # map Line rows"
    and sk': "skip_lines 3 (meta @ Line hs # map Line rows') = Inr (Line hs # map Line rows')"
    using skip_lines_append [OF assms(2) sk] by simp_all
  show "a = fold (process_row hs (indices_of ''billSubjectTerm'' hs) (indices_of ''Cosponsor'' hs))
               rows (start_analysis hs)"
    using assms(3) unfolding analyze_csv_def
    by (simp add: assms(1) sk Y process_rows_Lines)
  show "analyze_csv fs' filepath' =
           Inr (fold (process_row hs (indices_of ''billSubjectTerm'' hs) (indices_of ''Cosponsor'' hs))
               rows' (start_analysis hs))"
    unfolding analyze_csv_def by (simp add: assms(4) sk' process_rows_Lines)
qed

lemma subject_terms_final:
  "map_of (subject_terms (fold (process_row hs (indices_of ''billSubjectTerm'' hs) ci)
            rows (start_analysis hs))) t =
     (if tag_occurrences hs rows t = 0 then None else Some (tag_occurrences hs rows t))"
proof -
  have "freq_ok (\<lambda>t. 0) (subject_terms (start_analysis hs))"
    by (simp add: freq_ok_def start_analysis_def)
  from freq_ok_rows [OF this, of "indices_of ''billSubjectTerm'' hs" rows hs ci]
  show ?thesis by (simp add: freq_ok_def tag_occurrences_def count_row_terms)
qed

text \<open>
  C8. The final tag-frequency mapping does not depend on the order of the data rows:
  the analysis of a file with the same metadata and header and a permutation of the
  data rows succeeds as well and gives the same mapping from tag to count. Each tag's
  count is the number of pairs of a row and a tag column in which the trimmed cell is
  that tag and is not blank; a tag with no such pair is not a key of the mapping.
\<close>

theorem tag_frequency_order_independent:
  assumes "fs filepath = Some (meta @ Line all_headers # map Line rows)"
      and "length meta = 3"
      and "analyze_csv fs filepath = Inr a"
      and "fs' filepath' = Some (meta @ Line all_headers # map Line rows')"
      and "mset rows' = mset rows"
  shows "(\<exists>a'. analyze_csv fs' filepath' = Inr a'
            \<and> map_of (subject_terms a') = map_of (subject_terms a))
       \<and> map_of (subject_terms a) t =
           (if tag_occurrences all_headers rows t = 0 then None
            else Some (tag_occurrences all_headers rows t))"
proof -
  note r = analyze_csv_rows [where fs = fs and filepath = filepath and fs' = fs'
      and filepath' = filepath', OF assms(1,2,3,4)]
  have m: "map_of (subject_terms a) u =
           (if tag_occurrences all_headers rows u = 0 then None
            else Some (tag_occurrences all_headers rows u))" for u
    unfolding r(1) by (rule subject_terms_final)
  have "map_of (subject_terms (fold (process_row all_headers
          (indices_of ''billSubjectTerm'' all_headers) (indices_of ''Cosponsor'' all_headers))
          rows' (start_analysis all_headers))) = map_of (subject_terms a)"
    by (rule ext) (simp add: m subject_terms_final tag_occurrences_mset [OF assms(5)])
  then show ?thesis using r(2) m by blast
qed

theorem tag_frequency_order_independent_witness:
  "example_fs ''bills.csv'' = Some (example_meta @ Line example_header # map Line example_rows)
   \<and> length example_meta = 3
   \<and> analyze_csv example_fs ''bills.csv'' = Inr example_analysis
   \<and> swapped_fs ''bills.csv'' =
       Some (example_meta @ Line example_header # map Line (rev example_rows))
   \<and> mset (rev example_rows) = mset example_rows
   \<and> (\<exists>a'. analyze_csv swapped_fs ''bills.csv'' = Inr a'
         \<and> map_of (subject_terms a') = map_of (subject_terms example_analysis))
   \<and> map_of (subject_terms example_analysis) ''x'' = Some 1
   \<and> tag_occurrences example_header example_rows ''x'' = 1"
proof -
  note h1 = example_file_shape and h2 = example_meta_length and h3 = example_analysis_eval
    and h4 = swapped_file_shape
  have h5: "mset (rev example_rows) = mset example_rows" by simp
  have occ: "tag_occurrences example_header example_rows ''x'' = 1" by code_simp
  from tag_frequency_order_independent [where fs = example_fs and filepath = "''bills.csv''"
      and fs' = swapped_fs and filepath' = "''bills.csv''" and t = "''x''", OF h1 h2 h3 h4 h5]
    h1 h2 h3 h4 h5 occ show ?thesis by simp
qed

section \<open>Fill-rate buckets\<close>

lemma bucket_fold:
  "fold bucket_step cols b =
     \<lparr>always_filled = always_filled b @ map entry_of (filter (\<lambda>(col, st). fill_rate st = 100) cols),
      mostly_filled = mostly_filled b @ map entry_of (filter (\<lambda>(col, st). fill_rate st \<noteq> 100 \<and> 90 \<le> fill_rate st) cols),
      sometimes_filled = sometimes_filled b @ map entry_of (filter (\<lambda>(col, st). 50 \<le> fill_rate st \<and> fill_rate st < 90) cols),
      rarely_filled = rarely_filled b @ map entry_of (filter (\<lambda>(col, st). fill_rate st < 50) cols)\<rparr>"
proof (induction cols arbitrary: b)
  case Nil
  then show ?case by simp
next
  case (Cons x cols)
  obtain col st where x: "x = (col, st)" by (cases x)
  show ?case
    unfolding fold_Cons comp_def Cons.IH x
    by (simp add: bucket_step_def Let_def entry_of_def)
qed

lemma buckets_of:
  "always_filled (bucket_columns cols) = map entry_of (filter (\<lambda>(col, st). fill_rate st = 100) cols)"
  "mostly_filled (bucket_columns cols) = map entry_of (filter (\<lambda>(col, st). fill_rate st \<noteq> 100 \<and> 90 \<le> fill_rate st) cols)"
  "sometimes_filled (bucket_columns cols) = map entry_of (filter (\<lambda>(col, st). 50 \<le> fill_rate st \<and> fill_rate st < 90) cols)"
  "rarely_filled (bucket_columns cols) = map entry_of (filter (\<lambda>(col, st). fill_rate st < 50) cols)"
  unfolding bucket_columns_def bucket_fold by simp_all

lemma buckets_mset:
  "mset (always_filled (bucket_columns cols) @ mostly_filled (bucket_columns cols)
           @ sometimes_filled (bucket_columns cols) @ rarely_filled (bucket_columns cols))
      = mset (map entry_of cols)"
  unfolding buckets_of by (induction cols) (auto simp: not_le not_less)

lemma fill_rate_le_100: "filled st \<le> total st \<Longrightarrow> fill_rate st \<le> 100"
proof -
  assume le: "filled st \<le> total st"
  show ?thesis
  proof (cases "total st = 0")
    case True
    then show ?thesis by (simp add: fill_rate_def)
  next
    case False
    have "(of_nat (filled st) :: rat) \<le> of_nat (total st)" using le by simp
    moreover have "(0 :: rat) < of_nat (total st)" using False by simp
    ultimately have "(of_nat (filled st) :: rat) / of_nat (total st) \<le> 1"
      by (simp add: divide_le_eq_1)
    then have "(of_nat (filled st) :: rat) / of_nat (total st) * 100 \<le> 1 * 100"
      by (rule mult_right_mono) simp
    then show ?thesis using False by (simp add: fill_rate_def)
  qed
qed

lemma entry_mem:
  "(col, st) \<in> set cols \<Longrightarrow>
   ((col, st, fill_rate st) \<in> set (map entry_of (filter (\<lambda>(c, s). P (fill_rate s)) cols))) = P (fill_rate st)"
  by (force simp: entry_of_def)

lemma bucket_keys:
  "map fst (always_filled (bucket_columns cols) @ mostly_filled (bucket_columns cols)
           @ sometimes_filled (bucket_columns cols) @ rarely_filled (bucket_columns cols))
   = map fst (filter (\<lambda>(col, st). fill_rate st = 100) cols) @
     map fst (filter (\<lambda>(col, st). fill_rate st \<noteq> 100 \<and> 90 \<le> fill_rate st) cols) @
     map fst (filter (\<lambda>(col, st). 50 \<le> fill_rate st \<and> fill_rate st < 90) cols) @
     map fst (filter (\<lambda>(col, st). fill_rate st < 50) cols)"
  unfolding buckets_of by (simp add: entry_of_def case_prod_unfold comp_def)

lemma distinct_bucket_keys:
  assumes "distinct (map fst cols)"
  shows "distinct (map fst (always_filled (bucket_columns cols) @ mostly_filled (bucket_columns cols)
           @ sometimes_filled (bucket_columns cols) @ rarely_filled (bucket_columns cols)))"
proof -
  have "mset (map fst (always_filled (bucket_columns cols) @ mostly_filled (bucket_columns cols)
           @ sometimes_filled (bucket_columns cols) @ rarely_filled (bucket_columns cols)))
        = image_mset fst (mset (map entry_of cols))"
    using buckets_mset [of cols] by (metis mset_map)
  also have "\<dots> = mset (map fst cols)"
    by (simp add: entry_of_def case_prod_unfold comp_def multiset.map_comp)
  finally show ?thesis using assms by (metis mset_eq_imp_distinct_iff)
qed


lemma analyze_csv_invariants:
  assumes "analyze_csv fs filepath = Inr a"
  shows "wf_analysis a \<and> counts_ok a"
proof -
  from assms obtain f f1 hs f2 where
    pr: "process_rows hs (indices_of ''billSubjectTerm'' hs) (indices_of ''Cosponsor'' hs)
       (start_analysis hs) f2 = Inr a"
    by (rule analyze_csv_Inr)
  show ?thesis using process_rows_inv [OF pr] start_ok [of hs] by simp
qed

text \<open>
  C6. The bucketing places every relevant column in exactly one of the four buckets:
  the entries of the four buckets together are the entries of the columns, each column
  name once. A column goes to always-filled exactly when its fill rate is 100, to
  mostly-filled when it is at least 90 and below 100, to sometimes-filled when it is at
  least 50 and below 90, and to rarely-filled when it is below 50; the fill rate is
  \<open>filled / total * 100\<close>, and 0 for a column with \<open>total = 0\<close>, which is therefore
  rarely-filled.
\<close>

theorem fill_rate_buckets_partition:
  assumes "analyze_csv fs filepath = Inr a" and "(col, st) \<in> set (columns a)"
  shows "fill_rate st =
           (if total st = 0 then 0 else of_nat (filled st) / of_nat (total st) * 100)
       \<and> ((col, st, fill_rate st) \<in> set (always_filled (bucket_columns (columns a))))
           = (fill_rate st = 100)
       \<and> ((col, st, fill_rate st) \<in> set (mostly_filled (bucket_columns (columns a))))
           = (90 \<le> fill_rate st \<and> fill_rate st < 100)
       \<and> ((col, st, fill_rate st) \<in> set (sometimes_filled (bucket_columns (columns a))))
           = (50 \<le> fill_rate st \<and> fill_rate st < 90)
       \<and> ((col, st, fill_rate st) \<in> set (rarely_filled (bucket_columns (columns a))))
           = (fill_rate st < 50)
       \<and> mset (always_filled (bucket_columns (columns a))
               @ mostly_filled (bucket_columns (columns a))
               @ sometimes_filled (bucket_columns (columns a))
               @ rarely_filled (bucket_columns (columns a)))
           = mset (map entry_of (columns a))
       \<and> distinct (map fst (always_filled (bucket_columns (columns a))
               @ mostly_filled (bucket_columns (columns a))
               @ sometimes_filled (bucket_columns (columns a))
               @ rarely_filled (bucket_columns (columns a))))"
proof -
  have inv: "wf_analysis a" "counts_ok a"
    using analyze_csv_invariants [OF assms(1)] by simp_all
  have "stat_ok (total_rows a) st" using inv(2) assms(2) by (auto simp: counts_ok_def)
  then have "filled st \<le> total st" by (simp add: stat_ok_def)
  then have le: "fill_rate st \<le> 100" by (rule fill_rate_le_100)
  have r: "fill_rate st =
           (if total st = 0 then 0 else of_nat (filled st) / of_nat (total st) * 100)"
    by (simp add: fill_rate_def)
  have m1: "((col, st, fill_rate st) \<in> set (always_filled (bucket_columns (columns a))))
           = (fill_rate st = 100)"
    unfolding buckets_of using entry_mem [OF assms(2), of "\<lambda>r. r = 100"] by simp
  have m2: "((col, st, fill_rate st) \<in> set (mostly_filled (bucket_columns (columns a))))
           = (90 \<le> fill_rate st \<and> fill_rate st < 100)"
    unfolding buckets_of using entry_mem [OF assms(2), of "\<lambda>r. r \<noteq> 100 \<and> 90 \<le> r"] le
    by auto
  have m3: "((col, st, fill_rate st) \<in> set (sometimes_filled (bucket_columns (columns a))))
           = (50 \<le> fill_rate st \<and> fill_rate st < 90)"
    unfolding buckets_of using entry_mem [OF assms(2), of "\<lambda>r. 50 \<le> r \<and> r < 90"] by simp
  have m4: "((col, st, fill_rate st) \<in> set (rarely_filled (bucket_columns (columns a))))
           = (fill_rate st < 50)"
    unfolding buckets_of using entry_mem [OF assms(2), of "\<lambda>r. r < 50"] by simp
  have d: "distinct (map fst (columns a))" using inv(1) by (simp add: wf_analysis_def)
  show ?thesis
    using r m1 m2 m3 m4 buckets_mset [of "columns a"] distinct_bucket_keys [OF d] by blast
qed

theorem fill_rate_buckets_partition_witness:
  "analyze_csv example_fs ''bills.csv'' = Inr example_analysis
   \<and> (''A'', example_stat) \<in> set (columns example_analysis)
   \<and> fill_rate example_stat = 100
   \<and> ((''A'', example_stat, fill_rate example_stat)
         \<in> set (always_filled (bucket_columns (columns example_analysis))))
   \<and> ((''A'', example_stat, fill_rate example_stat)
         \<notin> set (mostly_filled (bucket_columns (columns example_analysis))))
   \<and> ((''A'', example_stat, fill_rate example_stat)
         \<notin> set (sometimes_filled (bucket_columns (columns example_analysis))))
   \<and> ((''A'', example_stat, fill_rate example_stat)
         \<notin> set (rarely_filled (bucket_columns (columns example_analysis))))"
proof -
  note h1 = example_analysis_eval and h2 = example_stat_mem
  have r: "fill_rate example_stat = 100" by (simp add: fill_rate_def example_stat_def)
  from fill_rate_buckets_partition [OF h1 h2] h1 h2 r show ?thesis by simp
qed

section \<open>The integer rule of \<open>infer_type\<close>\<close>










subsection \<open>A string of digits beyond the limit of \<open>int\<close>\<close>












section \<open>Failures of the analysis, and the report\<close>

lemma analyze_csv_missing:
  "fs filepath = None \<Longrightarrow> analyze_csv fs filepath = Inl FileNotFoundError"
  by (simp add: analyze_csv_def)

text \<open>
  Failures of the analysis pass. When a path is resolved and \<open>analyze_csv\<close> fails,
  \<open>main\<close> prints its two starting lines and one diagnostic, no line of the report, and
  exits with status 1; the failure is \<open>FileNotFoundError\<close> exactly when nothing exists
  at the path, and the diagnostic then holds the path.
\<close>

lemma failed_analysis_prints_no_report:
  assumes "length argv > 1 \<or> fs default_path \<noteq> None"
      and "filepath = (if length argv > 1 then argv ! 1 else default_path)"
      and "analyze_csv fs filepath = Inl e"
  shows "main argv default_path fs =
           ([Analyzing filepath, PleaseWait,
             if e = FileNotFoundError then ErrorFileNotFound filepath else ErrorMessage e], 1)
       \<and> (\<forall>l. Report l \<notin> set (fst (main argv default_path fs)))
       \<and> snd (main argv default_path fs) \<noteq> 0
       \<and> (fs filepath = None) = (e = FileNotFoundError)"
proof -
  have m: "main argv default_path fs =
           ([Analyzing filepath, PleaseWait,
             if e = FileNotFoundError then ErrorFileNotFound filepath else ErrorMessage e], 1)"
    using assms unfolding main_def Let_def by (cases e) auto
  have "(fs filepath = None) = (e = FileNotFoundError)"
  proof
    assume "fs filepath = None"
    then show "e = FileNotFoundError" using assms(3) by (simp add: analyze_csv_missing)
  next
    assume e: "e = FileNotFoundError"
    show "fs filepath = None"
    proof (rule ccontr)
      assume "fs filepath \<noteq> None"
      then obtain f where f: "fs filepath = Some f" by auto
      have nl: "next_line g \<noteq> Inl FileNotFoundError" for g
        by (cases g rule: next_line.cases) auto
      have sk: "skip_lines n g \<noteq> Inl FileNotFoundError" for n g
        by (induction n g rule: skip_lines.induct) (auto split: sum.splits simp: nl)
      have pr: "process_rows hs si ci a g \<noteq> Inl FileNotFoundError" for hs si ci a g
        by (induction hs si ci a g rule: process_rows.induct) auto
      show False using assms(3) e f sk nl pr
        unfolding analyze_csv_def by (auto split: sum.splits prod.splits)
    qed
  qed
  then show ?thesis using m by auto
qed

lemma failed_analysis_at_missing_path:
  "(length [''csv_analyzer.py'', ''missing.csv''] > 1 \<or> example_fs ''all_bills.csv'' \<noteq> None)
   \<and> ''missing.csv'' =
       (if length [''csv_analyzer.py'', ''missing.csv''] > 1
        then [''csv_analyzer.py'', ''missing.csv''] ! 1 else ''all_bills.csv'')
   \<and> analyze_csv example_fs ''missing.csv'' = Inl FileNotFoundError
   \<and> example_fs ''missing.csv'' = None
   \<and> main [''csv_analyzer.py'', ''missing.csv''] ''all_bills.csv'' example_fs =
       ([Analyzing ''missing.csv'', PleaseWait, ErrorFileNotFound ''missing.csv''], 1)
   \<and> (\<forall>l. Report l \<notin>
         set (fst (main [''csv_analyzer.py'', ''missing.csv''] ''all_bills.csv'' example_fs)))"
proof -
  have h1: "length [''csv_analyzer.py'', ''missing.csv''] > 1 \<or> example_fs ''all_bills.csv'' \<noteq> None"
    by simp
  have h2: "''missing.csv'' =
       (if length [''csv_analyzer.py'', ''missing.csv''] > 1
        then [''csv_analyzer.py'', ''missing.csv''] ! 1 else ''all_bills.csv'')"
    by simp
  have h3: "analyze_csv example_fs ''missing.csv'' = Inl FileNotFoundError" by code_simp
  have h4: "example_fs ''missing.csv'' = None" by (simp add: example_fs_def)
  from failed_analysis_prints_no_report [OF h1 h2 h3] h1 h2 h3 h4 show ?thesis by simp
qed

text \<open>
  C2. A file that ends after its header is analysed without error: \<open>total_rows\<close> is 0,
  every column has \<open>total\<close>, \<open>filled\<close> and \<open>empty\<close> 0, and the bucketing puts every
  column into rarely-filled with fill rate 0. The report is not completed: after the
  heading of the cosponsor section \<open>print_report\<close> divides by \<open>total_rows\<close> and raises
  \<open>ZeroDivisionError\<close>, which \<open>main\<close> reports before it exits with status 1.
\<close>

theorem zero_rows_report_raises:
  "analyze_csv header_only_fs ''empty.csv'' = Inr header_only_analysis
   \<and> total_rows header_only_analysis = 0
   \<and> map (\<lambda>(col, st). (col, total st, filled st, empty st)) (columns header_only_analysis)
       = [(''A'', 0, 0, 0), (''B'', 0, 0, 0)]
   \<and> rarely_filled (bucket_columns (columns header_only_analysis))
       = [(''A'', new_stat, 0), (''B'', new_stat, 0)]
   \<and> snd (print_report header_only_analysis) = Some ZeroDivisionError
   \<and> last (fst (print_report header_only_analysis)) = Dashes
   \<and> main [''csv_analyzer.py'', ''empty.csv''] ''all_bills.csv'' header_only_fs
       = ([Analyzing ''empty.csv'', PleaseWait]
          @ map Report (fst (print_report header_only_analysis))
          @ [ErrorMessage ZeroDivisionError], 1)"
  by code_simp

text \<open>
  C9. For a path at which nothing exists, \<open>main\<close> prints a diagnostic that holds the
  path, prints no line of the report and exits with status 1. The report is not
  all-or-nothing, though: \<open>print_report\<close> runs in the same \<open>try\<close> block and prints
  as it goes, so for the file that ends after its header \<open>main\<close> prints the report up
  to the heading of the cosponsor section, then the diagnostic of the
  \<open>ZeroDivisionError\<close> raised there, and exits with status 1; the rest of the report
  is never printed.
\<close>

theorem partial_report_on_failure:
  "main [''csv_analyzer.py'', ''missing.csv''] ''all_bills.csv'' header_only_fs
     = ([Analyzing ''missing.csv'', PleaseWait, ErrorFileNotFound ''missing.csv''], 1)
   \<and> main [''csv_analyzer.py'', ''empty.csv''] ''all_bills.csv'' header_only_fs
     = ([Analyzing ''empty.csv'', PleaseWait,
         Report Rule, Report (Title ''CSV DATA ANALYSIS REPORT''), Report Rule,
         Report (TotalRows 0), Report (AnalyzedColumns 2),
         Report (Heading ''ALWAYS FILLED (100%) - Safe for NOT NULL''),
         Report Dashes, Report NoneLine,
         Report (Heading ''MOSTLY FILLED (90-99%) - Consider NULLABLE''),
         Report Dashes, Report NoneLine,
         Report (Heading ''SOMETIMES FILLED (50-89%) - NULLABLE''),
         Report Dashes, Report NoneLine,
         Report (Heading ''RARELY FILLED (<50%) - Optional/NULLABLE''),
         Report Dashes,
         Report (ColumnName ''A''), Report (FillRateFilledMissing 0 0 0),
         Report (TypeLine ''N/A''),
         Report (ColumnName ''B''), Report (FillRateFilledMissing 0 0 0),
         Report (TypeLine ''N/A''),
         Report (Heading ''COSPONSOR ANALYSIS''), Report Dashes,
         ErrorMessage ZeroDivisionError], 1)"
  by code_simp

section \<open>The scenario with a repeated header name\<close>

text \<open>
  C1 as stated fails. A header name is either an ordinary column or the tag field, by
  its name, and never both. With the header written \<open>A,B,B\<close> the name \<open>B\<close> is not the
  tag field, and no tag is recorded, so the frequency of \<open>x\<close> is not 1. With the tag
  field's name \<open>billSubjectTerm\<close> in the place of \<open>B\<close>, that name is not in the list of
  relevant columns, so it has no counters of its own, and the cell \<open>y\<close> of its first
  column is recorded as a tag as well, so the frequencies are not \<open>x\<close>: 1 alone.
\<close>

theorem scenario_tag_field_counterexample:
  "analyze_csv literal_fs ''bills.csv'' = Inr literal_analysis
   \<and> map_of (subject_terms literal_analysis) ''x'' \<noteq> Some 1
   \<and> analyze_csv example_fs ''bills.csv'' = Inr example_analysis
   \<and> ''billSubjectTerm'' \<notin> set (relevant_headers example_analysis)
   \<and> map_of (subject_terms example_analysis) ''y'' \<noteq> None"
  by code_simp

text \<open>
  C1, as amended. For the file with three metadata lines and the data rows \<open>1,,x\<close> and
  \<open>2,y,\<close>: with the header \<open>A,B,B\<close>, where \<open>B\<close> is an ordinary name, the relevant columns
  are \<open>A\<close> and the first \<open>B\<close>; \<open>A\<close> has total 2, filled 2 and types \<open>integer\<close>: 2, \<open>B\<close> has
  total 2 and filled 1, and no tag is recorded. With the header
  \<open>A,billSubjectTerm,billSubjectTerm\<close> the only relevant column is \<open>A\<close>, with the same
  counters, both tag columns are read, the tag frequencies are \<open>x\<close>: 1 and \<open>y\<close>: 1, the
  empty cells are not counted, and both rows count as rows with a tag.
\<close>

theorem scenario_tag_field_by_name:
  "analyze_csv literal_fs ''bills.csv'' = Inr literal_analysis
   \<and> relevant_headers literal_analysis = [''A'', ''B'']
   \<and> map (\<lambda>(col, st). (col, total st, filled st, types st)) (columns literal_analysis)
       = [(''A'', 2, 2, [(''integer'', 2)]), (''B'', 2, 1, [(''empty'', 1), (''string'', 1)])]
   \<and> subject_terms literal_analysis = []
   \<and> analyze_csv example_fs ''bills.csv'' = Inr example_analysis
   \<and> relevant_headers example_analysis = [''A'']
   \<and> map (\<lambda>(col, st). (col, total st, filled st, types st)) (columns example_analysis)
       = [(''A'', 2, 2, [(''integer'', 2)])]
   \<and> subject_terms example_analysis = [(''x'', 1), (''y'', 1)]
   \<and> map_of (subject_terms example_analysis) [] = None
   \<and> bills_with_subject_terms example_analysis = 2"
  by code_simp

end
